theory Spec2Isabelle
  imports Main "HOL-Library.Word"
begin

section \<open>PZEM-017 Modbus logger: a model of csv_log.py\<close>

text \<open>
  The program polls eight input registers of a power meter over Modbus, decodes them
  into one CSV row and appends the row to a log file that \<open>log_file\<close> created at start.
  The model keeps the four functions of the module (\<open>read_pzem_data\<close>, \<open>log_file\<close>,
  \<open>write_results\<close>, \<open>main\<close>) and makes their surroundings explicit: the Modbus
  device, the file system, standard output and the clock are fields of a \<open>world\<close> record
  that every function takes and returns. A raised exception is the \<open>Inl\<close> of a sum.
  A Python \<open>float\<close> is a binary64 number, kept as an odd mantissa and an exponent,
  and every operation on floats rounds as the hardware does; the text of a float in the
  CSV file is a parameter of the world (\<open>float_repr\<close>).
\<close>

subsection \<open>Exceptions\<close>

text \<open>
  \<open>OSError\<close> stands for the class and all its subclasses (FileNotFoundError,
  FileExistsError, NotADirectoryError, PermissionError, IsADirectoryError): the module
  only ever catches the base class. The string stands for the message of the exception;
  for an OSError of the file system below it is the name of the error number.
  \<open>OtherError\<close> is any exception the module names nowhere (a serial timeout, a
  checksum error of the Modbus library).
\<close>

datatype exn =
    IllegalRequestError string
  | KeyboardInterrupt
  | UnboundLocalError string
  | ValueError string
  | OSError string
  | OtherError string

fun str_exn :: "exn \<Rightarrow> string" where
  "str_exn (IllegalRequestError m) = m"
| "str_exn KeyboardInterrupt = []"
| "str_exn (UnboundLocalError m) = m"
| "str_exn (ValueError m) = m"
| "str_exn (OSError m) = m"
| "str_exn (OtherError m) = m"

subsection \<open>Strings: \<open>str(n)\<close>, \<open>str.lower\<close>, \<open>os.path.splitext\<close>, \<open>os.path.join\<close>\<close>

definition digit_char :: "nat \<Rightarrow> char" where
  "digit_char d = ''0123456789'' ! d"

fun str_nat :: "nat \<Rightarrow> string" where
  "str_nat n = (if n < 10 then [digit_char n] else str_nat (n div 10) @ [digit_char (n mod 10)])"

declare str_nat.simps [simp del]

definition str_int :: "int \<Rightarrow> string" where
  "str_int i = (if i < 0 then CHR ''-'' # str_nat (nat (- i)) else str_nat (nat i))"

text \<open>
  \<open>str.lower\<close> on the ASCII letters. No character outside ASCII lowers to one of
  \<open>c\<close>, \<open>s\<close>, \<open>v\<close> or the dot, so the comparison with \<open>.csv\<close> is decided by these.
\<close>

definition lower_char :: "char \<Rightarrow> char" where
  "lower_char c =
     (case map_of (zip ''ABCDEFGHIJKLMNOPQRSTUVWXYZ'' ''abcdefghijklmnopqrstuvwxyz'') c of
        None \<Rightarrow> c | Some l \<Rightarrow> l)"

definition lower :: "string \<Rightarrow> string" where
  "lower s = map lower_char s"

text \<open>\<open>p.rfind(c)\<close>: the last index of \<open>c\<close> in \<open>p\<close>, or \<open>-1\<close>.\<close>

fun rfind_from :: "nat \<Rightarrow> char \<Rightarrow> string \<Rightarrow> int" where
  "rfind_from i c [] = -1"
| "rfind_from i c (x # xs) =
     (let r = rfind_from (Suc i) c xs
      in if 0 \<le> r then r else if x = c then int i else -1)"

definition rfind :: "char \<Rightarrow> string \<Rightarrow> int" where
  "rfind c p = rfind_from 0 c p"

text \<open>
  \<open>os.path.splitext\<close> (posixpath): the extension starts at the last dot of the last
  path component, unless that component has only dots before it.
\<close>

definition splitext :: "string \<Rightarrow> string \<times> string" where
  "splitext p =
     (let sepIndex = rfind CHR ''/'' p;
          dotIndex = rfind CHR ''.'' p
      in if sepIndex < dotIndex \<and>
            filter (\<lambda>c. c \<noteq> CHR ''.'') (take (nat (dotIndex - (sepIndex + 1))) (drop (nat (sepIndex + 1)) p)) \<noteq> []
         then (take (nat dotIndex) p, drop (nat dotIndex) p)
         else (p, []))"

text \<open>\<open>os.path.join(a, b)\<close> (posixpath, two arguments).\<close>

definition path_join :: "string \<Rightarrow> string \<Rightarrow> string" where
  "path_join a b =
     (if b \<noteq> [] \<and> hd b = CHR ''/'' then b
      else if a = [] \<or> last a = CHR ''/'' then a @ b
      else a @ ''/'' @ b)"

subsection \<open>The file system\<close>

text \<open>
  A tree without symbolic links. A node is the list of names from the root; the root is
  \<open>[]\<close> and is always a directory. A regular file holds the records written to it, one
  string per \<open>writerow\<close> (each is followed by CR LF on disk). Nothing can be created in a
  directory listed in \<open>readonly\<close>.
\<close>

type_synonym node = "string list"

record filesystem =
  cwd :: node
  dirs :: "node list"
  files :: "(node \<times> string list) list"
  readonly :: "node list"

definition is_dir :: "filesystem \<Rightarrow> node \<Rightarrow> bool" where
  "is_dir fs n = (n = [] \<or> n \<in> set (dirs fs))"

definition is_file :: "filesystem \<Rightarrow> node \<Rightarrow> bool" where
  "is_file fs n = (n \<in> set (map fst (files fs)))"

definition entries :: "filesystem \<Rightarrow> node list" where
  "entries fs = dirs fs @ map fst (files fs)"

text \<open>Splitting a path at its slashes: \<open>a//b/\<close> gives \<open>a\<close>, the empty name, \<open>b\<close>, the empty name.\<close>

fun split_sep :: "string \<Rightarrow> string list" where
  "split_sep [] = [[]]"
| "split_sep (c # cs) =
     (if c = CHR ''/'' then [] # split_sep cs
      else (case split_sep cs of [] \<Rightarrow> [[c]] | x # xs \<Rightarrow> (c # x) # xs))"

text \<open>
  Path resolution as the kernel does it: every name is looked up in a directory, so the
  node reached so far must be a directory before the next name is read; the empty name
  and \<open>.\<close> stay, \<open>..\<close> goes to the parent. The node of the last name need not exist.
\<close>

fun walk :: "filesystem \<Rightarrow> node \<Rightarrow> string list \<Rightarrow> exn + node" where
  "walk fs cur [] = Inr cur"
| "walk fs cur (c # cs) =
     (if \<not> is_dir fs cur then Inl (OSError (if is_file fs cur then ''ENOTDIR'' else ''ENOENT''))
      else if c = [] \<or> c = ''.'' then walk fs cur cs
      else if c = ''..'' then walk fs (butlast cur) cs
      else walk fs (cur @ [c]) cs)"

definition start_node :: "filesystem \<Rightarrow> string \<Rightarrow> node" where
  "start_node fs p = (if p \<noteq> [] \<and> hd p = CHR ''/'' then [] else cwd fs)"

definition resolve :: "filesystem \<Rightarrow> string \<Rightarrow> exn + node" where
  "resolve fs p = (if p = [] then Inl (OSError ''ENOENT'') else walk fs (start_node fs p) (split_sep p))"

text \<open>\<open>os.path.exists\<close> and \<open>os.path.isdir\<close>: False where the path cannot be resolved.\<close>

definition path_exists :: "filesystem \<Rightarrow> string \<Rightarrow> bool" where
  "path_exists fs p = (case resolve fs p of Inl e \<Rightarrow> False | Inr n \<Rightarrow> is_dir fs n \<or> is_file fs n)"

definition path_isdir :: "filesystem \<Rightarrow> string \<Rightarrow> bool" where
  "path_isdir fs p = (case resolve fs p of Inl e \<Rightarrow> False | Inr n \<Rightarrow> is_dir fs n)"

text \<open>Whether an entry named by node \<open>n\<close> can be created: the parent is a writable directory.\<close>

definition creatable :: "filesystem \<Rightarrow> node \<Rightarrow> exn + unit" where
  "creatable fs n =
     (if \<not> is_dir fs (butlast n) then Inl (OSError ''ENOENT'')
      else if butlast n \<in> set (readonly fs) then Inl (OSError ''EACCES'')
      else Inr ())"

definition ensure_dir :: "filesystem \<Rightarrow> node \<Rightarrow> (exn + unit) \<times> filesystem" where
  "ensure_dir fs n =
     (if is_dir fs n then (Inr (), fs)
      else if is_file fs n then (Inl (OSError ''EEXIST''), fs)
      else (case creatable fs n of
              Inl e \<Rightarrow> (Inl e, fs)
            | Inr u \<Rightarrow> (Inr (), fs\<lparr>dirs := dirs fs @ [n]\<rparr>)))"

text \<open>
  \<open>os.makedirs(p, exist_ok=True)\<close>: walks the path as resolution does and creates
  every directory that is missing on the way, the last one included. It raises where a
  name on the way is a regular file or a directory cannot be created; the directories
  made before the failure stay.
\<close>

fun makedirs_walk :: "filesystem \<Rightarrow> node \<Rightarrow> string list \<Rightarrow> (exn + unit) \<times> filesystem" where
  "makedirs_walk fs cur [] = ensure_dir fs cur"
| "makedirs_walk fs cur (c # cs) =
     (case ensure_dir fs cur of
        (Inl e, fs') \<Rightarrow> (Inl e, fs')
      | (Inr u, fs') \<Rightarrow>
          if c = [] \<or> c = ''.'' then makedirs_walk fs' cur cs
          else if c = ''..'' then makedirs_walk fs' (butlast cur) cs
          else makedirs_walk fs' (cur @ [c]) cs)"

definition makedirs :: "filesystem \<Rightarrow> string \<Rightarrow> (exn + unit) \<times> filesystem" where
  "makedirs fs p =
     (if p = [] then (Inl (OSError ''ENOENT''), fs)
      else makedirs_walk fs (start_node fs p) (split_sep p))"

text \<open>
  \<open>open(p, 'a')\<close>: the node of an existing regular file, or of a new empty file made in
  an existing writable directory.
\<close>

definition open_append :: "filesystem \<Rightarrow> string \<Rightarrow> (exn + node) \<times> filesystem" where
  "open_append fs p =
     (case resolve fs p of
        Inl e \<Rightarrow> (Inl e, fs)
      | Inr n \<Rightarrow>
          if is_dir fs n then (Inl (OSError ''EISDIR''), fs)
          else if is_file fs n then (Inr n, fs)
          else (case creatable fs n of
                  Inl e \<Rightarrow> (Inl e, fs)
                | Inr u \<Rightarrow> (Inr n, fs\<lparr>files := files fs @ [(n, [])]\<rparr>)))"

definition write_record :: "filesystem \<Rightarrow> node \<Rightarrow> string \<Rightarrow> filesystem" where
  "write_record fs n l = fs\<lparr>files := map (\<lambda>(m, ls). if m = n then (m, ls @ [l]) else (m, ls)) (files fs)\<rparr>"

definition file_records :: "filesystem \<Rightarrow> string \<Rightarrow> string list option" where
  "file_records fs p = (case resolve fs p of Inl e \<Rightarrow> None | Inr n \<Rightarrow> map_of (files fs) n)"

subsection \<open>Python floats\<close>

text \<open>
  The floats of this program are zero or positive and far from the ends of the exponent
  range (between \<open>0.01\<close> and \<open>2 ^ 32\<close>), so a float is \<open>PyFloat m e\<close>, the number
  \<open>m * 2 ^ e\<close> with \<open>m\<close> odd, or \<open>PyFloat 0 0\<close> for zero. \<open>fround a b\<close> is the float
  nearest to the quotient \<open>a / b\<close> of two natural numbers: 53 significant bits, a tie
  going to the even mantissa. Conversion of an integer (\<open>float(n)\<close>), multiplication,
  division and the reading of a decimal literal are all correctly rounded in Python,
  hence instances of \<open>fround\<close>. \<open>decimal 456 1\<close> is the literal \<open>45.6\<close>.
\<close>

datatype pyfloat = PyFloat nat int

fun bit_length :: "nat \<Rightarrow> nat" where
  "bit_length n = (if n = 0 then 0 else Suc (bit_length (n div 2)))"

declare bit_length.simps [simp del]

fun normalise :: "nat \<Rightarrow> int \<Rightarrow> pyfloat" where
  "normalise m e =
     (if m = 0 then PyFloat 0 0
      else if even m then normalise (m div 2) (e + 1)
      else PyFloat m e)"

declare normalise.simps [simp del]

definition fround :: "nat \<Rightarrow> nat \<Rightarrow> pyfloat" where
  "fround a b =
     (if a = 0 then PyFloat 0 0
      else
        let d = int (bit_length a) - int (bit_length b);
            e = (if b * 2 ^ nat d \<le> a * 2 ^ nat (- d) then d else d - 1);
            t = e - 52;
            num = a * 2 ^ nat (- t);
            den = b * 2 ^ nat t;
            q0 = num div den;
            r = num mod den;
            q = (if 2 * r < den then q0
                 else if den < 2 * r then q0 + 1
                 else if even q0 then q0 else q0 + 1)
        in normalise q t)"

definition float_of_int :: "int \<Rightarrow> pyfloat" where
  "float_of_int i = fround (nat i) 1"

fun fmul :: "pyfloat \<Rightarrow> pyfloat \<Rightarrow> pyfloat" where
  "fmul (PyFloat m1 e1) (PyFloat m2 e2) =
     fround (m1 * m2 * 2 ^ nat (e1 + e2)) (2 ^ nat (- (e1 + e2)))"

definition decimal :: "nat \<Rightarrow> nat \<Rightarrow> pyfloat" where
  "decimal digits places = fround digits (10 ^ places)"

subsection \<open>CSV records\<close>

text \<open>
  A cell of a row is a string, a float or an integer. \<open>csv.writer\<close> (the default
  dialect) writes \<open>str\<close> of each cell, quotes a field that holds a comma, a double
  quote, CR or LF, doubling the quotes inside, and joins the fields with commas.
\<close>

datatype cell = StrCell string | FloatCell pyfloat | IntCell int

definition str_cell :: "(pyfloat \<Rightarrow> string) \<Rightarrow> cell \<Rightarrow> string" where
  "str_cell repr c = (case c of StrCell s \<Rightarrow> s | FloatCell r \<Rightarrow> repr r | IntCell i \<Rightarrow> str_int i)"

definition csv_field :: "string \<Rightarrow> string" where
  "csv_field s =
     (if filter (\<lambda>c. c \<in> set [CHR '','', CHR 0x22, CHR 0x0D, CHR 0x0A]) s \<noteq> []
      then [CHR 0x22] @ concat (map (\<lambda>c. if c = CHR 0x22 then [c, c] else [c]) s) @ [CHR 0x22]
      else s)"

fun join_comma :: "string list \<Rightarrow> string" where
  "join_comma [] = []"
| "join_comma [s] = s"
| "join_comma (s # t # ts) = s @ '','' @ join_comma (t # ts)"

definition csv_record :: "(pyfloat \<Rightarrow> string) \<Rightarrow> cell list \<Rightarrow> string" where
  "csv_record repr row = join_comma (map (\<lambda>c. csv_field (str_cell repr c)) row)"

subsection \<open>The instrument and the world\<close>

text \<open>
  The device answers the \<open>k\<close>-th request of the run, for a register address, with the
  16-bit register or with an exception raised by \<open>read_register\<close>. An operator interrupt
  that arrives while a read blocks on the serial line is the answer
  \<open>Raises KeyboardInterrupt\<close>.
\<close>

datatype resp = Value "16 word" | Raises exn

record instrument =
  device :: "nat \<Rightarrow> nat \<Rightarrow> resp"
  requests :: nat
  serial_open :: bool

record world =
  inst :: instrument
  fs :: filesystem
  stdout :: "string list"
  clock :: "nat \<Rightarrow> string"
  ticks :: nat
  float_repr :: "pyfloat \<Rightarrow> string"

definition print :: "string \<Rightarrow> world \<Rightarrow> world" where
  "print s w = w\<lparr>stdout := stdout w @ [s]\<rparr>"

definition strftime :: "world \<Rightarrow> string \<times> world" where
  "strftime w = (clock w (ticks w), w\<lparr>ticks := Suc (ticks w)\<rparr>)"

definition read_register :: "nat \<Rightarrow> world \<Rightarrow> (exn + 16 word) \<times> world" where
  "read_register addr w =
     (let i = inst w
      in (case device i (requests i) addr of Value v \<Rightarrow> Inr v | Raises e \<Rightarrow> Inl e,
          w\<lparr>inst := i\<lparr>requests := Suc (requests i)\<rparr>\<rparr>))"

text \<open>One read followed by the rest of the block; a raise skips the rest.\<close>

definition rd :: "nat \<Rightarrow> (16 word \<Rightarrow> world \<Rightarrow> (exn + 'a) \<times> world) \<Rightarrow> world \<Rightarrow> (exn + 'a) \<times> world" where
  "rd addr rest w =
     (case read_register addr w of
        (Inl e, w') \<Rightarrow> (Inl e, w')
      | (Inr v, w') \<Rightarrow> rest v w')"

subsection \<open>\<open>read_pzem_data\<close>\<close>

text \<open>
  The body of the \<open>try\<close>: eight reads in the order of the source, then the row. With
  \<open>number_of_decimals=2\<close> the library returns the float \<open>register / 100.0\<close>, and
  \<open>float\<close> of a float is that float. The registers are unsigned, so the integers that
  \<open>float\<close> converts are not negative. \<open>0.1\<close> is the literal \<open>decimal 1 1\<close>.
\<close>

definition try_block :: "world \<Rightarrow> (exn + cell list) \<times> world" where
  "try_block =
     rd 0 (\<lambda>v. let voltage = fround (unat v) 100 in
     rd 1 (\<lambda>c. let current = fround (unat c) 100 in
     rd 2 (\<lambda>power_low.
     rd 3 (\<lambda>power_high. let power = float_of_int (push_bit 16 (uint power_high) + uint power_low) in
     rd 4 (\<lambda>energy_low.
     rd 5 (\<lambda>energy_high. let energy = float_of_int (push_bit 16 (uint energy_high) + uint energy_low) in
     rd 6 (\<lambda>high_voltage_alarm.
     rd 7 (\<lambda>low_voltage_alarm. \<lambda>w.
       let row_values = [FloatCell voltage, FloatCell current, FloatCell (fmul power (decimal 1 1)), FloatCell energy,
                         IntCell (uint high_voltage_alarm), IntCell (uint low_voltage_alarm)];
           (row_time, w') = strftime w
       in (Inr ([StrCell row_time] @ row_values), w')))))))))"

text \<open>
  The generator function up to its only \<open>yield\<close>. The local \<open>row_data\<close> is bound by the
  last statement of the \<open>try\<close> only; the \<open>finally\<close> clause reads it on every path, and
  reading an unbound local raises \<open>UnboundLocalError\<close>, which replaces the exception
  that was on its way out.
\<close>

definition read_pzem_data_body :: "world \<Rightarrow> (exn + cell list) \<times> world" where
  "read_pzem_data_body w =
     (let (r, w1) = try_block w;
          row_data = (case r of Inr row \<Rightarrow> Some row | Inl e \<Rightarrow> None);
          w2 = (case r of Inl (IllegalRequestError m) \<Rightarrow> print (''Error: '' @ m) w1 | _ \<Rightarrow> w1)
      in (case row_data of
            None \<Rightarrow> Inl (UnboundLocalError ''row_data'')
          | Some row \<Rightarrow> Inr row, w2))"

text \<open>
  The generator object: not started, suspended at the \<open>yield\<close>, or finished.
  \<open>gen_next\<close> is \<open>next()\<close>: \<open>Inr None\<close> is StopIteration.
\<close>

datatype gen = Fresh | Suspended | Finished

fun gen_next :: "gen \<Rightarrow> world \<Rightarrow> (exn + cell list option) \<times> gen \<times> world" where
  "gen_next Fresh w =
     (case read_pzem_data_body w of
        (Inl e, w') \<Rightarrow> (Inl e, Finished, w')
      | (Inr row, w') \<Rightarrow> (Inr (Some row), Suspended, w'))"
| "gen_next Suspended w = (Inr None, Finished, w)"
| "gen_next Finished w = (Inr None, Finished, w)"

subsection \<open>\<open>write_results\<close>\<close>

fun gen_rank :: "gen \<Rightarrow> nat" where
  "gen_rank Fresh = 2"
| "gen_rank Suspended = 1"
| "gen_rank Finished = 0"

function for_rows :: "node \<Rightarrow> gen \<Rightarrow> world \<Rightarrow> (exn + unit) \<times> gen \<times> world" where
  "for_rows f g w =
     (case gen_next g w of
        (Inl e, g', w') \<Rightarrow> (Inl e, g', w')
      | (Inr None, g', w') \<Rightarrow> (Inr (), g', w')
      | (Inr (Some csv_str), g', w') \<Rightarrow>
          for_rows f g' (w'\<lparr>fs := write_record (fs w') f (csv_record (float_repr w') csv_str)\<rparr>))"
  by pat_completeness auto
termination
proof (relation "measure (\<lambda>(f, g, w). gen_rank g)", goal_cases)
  case 1
  show ?case by simp
next
  case (2 f g w a b c d e h)
  then show ?case
    by (cases g) (auto split: prod.splits sum.splits)
qed

definition write_results :: "gen \<Rightarrow> string \<Rightarrow> world \<Rightarrow> (exn + unit) \<times> gen \<times> world" where
  "write_results csv_strings filepath w =
     (case open_append (fs w) filepath of
        (Inl e, fs') \<Rightarrow> (Inl e, csv_strings, w)
      | (Inr f, fs') \<Rightarrow> for_rows f csv_strings (w\<lparr>fs := fs'\<rparr>))"

subsection \<open>\<open>log_file\<close>\<close>

text \<open>
  The loop that looks for an unused name. Its state is the counter \<open>n\<close> and
  \<open>new_filepath\<close>; it returns both. \<open>os.path.exists\<close> raises no RuntimeError, so the
  handler around the loop never runs. Nothing in the code bounds the loop, hence the
  option: \<open>None\<close> would be a loop that never ends.
\<close>

partial_function (option) unused_name :: "filesystem \<Rightarrow> string \<Rightarrow> string \<Rightarrow> nat \<Rightarrow> string \<Rightarrow> (nat \<times> string) option" where
  "unused_name fsys new_folder_path file_name n new_filepath =
     (if path_exists fsys new_filepath
      then unused_name fsys new_folder_path file_name (n + 1)
             (path_join new_folder_path (file_name @ ''_'' @ str_nat n @ ''.csv''))
      else Some (n, new_filepath))"

declare unused_name.simps [code]

definition header :: "cell list" where
  "header = [StrCell ''Time'', StrCell ''Voltage in V'', StrCell ''Current in A'', StrCell ''Power in W'',
             StrCell ''Energy in Wh'', StrCell ''High Voltage Alarm'', StrCell ''Low Voltage Alarm'']"

definition log_file :: "string \<Rightarrow> string \<Rightarrow> world \<Rightarrow> ((exn + string) \<times> world) option" where
  "log_file outfile dir w =
     (case makedirs (fs w) dir of
        (Inl e, fs1) \<Rightarrow> Some (Inl e, w\<lparr>fs := fs1\<rparr>)
      | (Inr u, fs1) \<Rightarrow>
          let (file_name, extension) = splitext outfile in
          if lower extension \<noteq> ''.csv''
          then Some (Inl (ValueError (''Outfile must be a .csv file, got '' @ [CHR 0x27] @ outfile @ [CHR 0x27] @ '' instead.'')),
                     w\<lparr>fs := fs1\<rparr>)
          else
            let new_folder_name = ''log_files'';
                new_folder_path = path_join dir new_folder_name;
                w2 = (case makedirs fs1 new_folder_path of
                        (Inl e, fs2) \<Rightarrow>
                          print (''Error creating folder '' @ new_folder_path @ '': '' @ str_exn e) (w\<lparr>fs := fs2\<rparr>)
                      | (Inr u, fs2) \<Rightarrow> w\<lparr>fs := fs2\<rparr>);
                new_filepath = path_join new_folder_path outfile
            in (case unused_name (fs w2) new_folder_path file_name 1 new_filepath of
                  None \<Rightarrow> None
                | Some (n, new_filepath) \<Rightarrow>
                    (case open_append (fs w2) new_filepath of
                       (Inl e, fs3) \<Rightarrow> Some (Inl e, w2\<lparr>fs := fs3\<rparr>)
                     | (Inr f, fs3) \<Rightarrow>
                         Some (Inr new_filepath,
                               w2\<lparr>fs := write_record fs3 f (csv_record (float_repr w2) header)\<rparr>))))"

subsection \<open>\<open>main\<close>\<close>

text \<open>
  \<open>init\<close> opens the serial port. The loop of \<open>main\<close> has no exit of its own, so the
  model runs it for a schedule: one entry per iteration, \<open>True\<close> where the operator's
  interrupt is delivered at the head of that iteration, inside the \<open>try\<close> and before
  \<open>data_gen\<close> is bound again. (An interrupt during a read is an answer of the device.)
  The name \<open>data_gen\<close> is unbound (\<open>None\<close>) until the first iteration binds it.
\<close>

datatype status = Running | Exited | Crashed exn

definition init :: "world \<Rightarrow> world" where
  "init w = w\<lparr>inst := (inst w)\<lparr>serial_open := True\<rparr>\<rparr>"

definition serial_close :: "world \<Rightarrow> world" where
  "serial_close w = w\<lparr>inst := (inst w)\<lparr>serial_open := False\<rparr>\<rparr>"

text \<open>The handler of KeyboardInterrupt: a last \<open>write_results\<close>, close, break.\<close>

definition on_interrupt :: "string \<Rightarrow> gen option \<Rightarrow> world \<Rightarrow> status \<times> gen option \<times> world" where
  "on_interrupt log_filepath data_gen w =
     (case data_gen of
        None \<Rightarrow> (Crashed (UnboundLocalError ''data_gen''), None, w)
      | Some g \<Rightarrow>
          (case write_results g log_filepath w of
             (Inl e, g', w') \<Rightarrow> (Crashed e, Some g', w')
           | (Inr u, g', w') \<Rightarrow> (Exited, Some g', serial_close w')))"

definition iteration :: "bool \<Rightarrow> string \<Rightarrow> gen option \<Rightarrow> world \<Rightarrow> status \<times> gen option \<times> world" where
  "iteration interrupted log_filepath data_gen w =
     (if interrupted then on_interrupt log_filepath data_gen w
      else
        (case write_results Fresh log_filepath w of
           (Inr u, g', w') \<Rightarrow> (Running, Some g', w')
         | (Inl KeyboardInterrupt, g', w') \<Rightarrow> on_interrupt log_filepath (Some g') w'
         | (Inl e, g', w') \<Rightarrow> (Crashed e, Some g', w')))"

fun main_loop :: "bool list \<Rightarrow> string \<Rightarrow> gen option \<Rightarrow> world \<Rightarrow> status \<times> gen option \<times> world" where
  "main_loop [] log_filepath data_gen w = (Running, data_gen, w)"
| "main_loop (i # sched) log_filepath data_gen w =
     (case iteration i log_filepath data_gen w of
        (Running, data_gen', w') \<Rightarrow> main_loop sched log_filepath data_gen' w'
      | (st, data_gen', w') \<Rightarrow> (st, data_gen', w'))"

definition main :: "bool list \<Rightarrow> world \<Rightarrow> (status \<times> world) option" where
  "main sched w =
     (let w1 = init w in
      case log_file ''pzem_logs.csv'' ''./'' w1 of
        None \<Rightarrow> None
      | Some (Inl e, w2) \<Rightarrow> Some (Crashed e, w2)
      | Some (Inr log_filepath, w2) \<Rightarrow>
          (let w3 = print ''Instrument and log file successfully initialized. Logging to CSV file now...'' w2;
               (st, data_gen, w4) = main_loop sched log_filepath None w3
           in Some (st, w4)))"

subsection \<open>Names for the statements\<close>

text \<open>
  \<open>numbered\<close> is the path the loop of \<open>log_file\<close> builds for counter \<open>k\<close>.
  \<open>candidate\<close> lists the paths the code tries: the path of \<open>outfile\<close> first, then
  the numbered ones, whose extension is the literal \<open>.csv\<close> of the source.
  \<open>spec_candidate\<close> follows the words of the specification instead: \<open>base_name\<close>
  first, then \<open>base_name\<close> with \<open>_1\<close>, \<open>_2\<close>, ... inserted before its own extension.
  \<open>siblings\<close> are the entries that exist in the directory a path lies in, and
  \<open>prepared\<close> is the file system as the two calls of \<open>os.makedirs\<close> leave it.
  One file system \<open>grows\<close> into another when nothing is removed and the working
  directory stays.
\<close>

definition name_suffix :: "nat \<Rightarrow> string" where
  "name_suffix k = ''_'' @ str_nat k @ ''.csv''"

definition numbered :: "string \<Rightarrow> string \<Rightarrow> nat \<Rightarrow> string" where
  "numbered new_folder_path file_name k = path_join new_folder_path (file_name @ ''_'' @ str_nat k @ ''.csv'')"

definition candidate :: "string \<Rightarrow> string \<Rightarrow> nat \<Rightarrow> string" where
  "candidate new_folder_path outfile k =
     (if k = 0 then path_join new_folder_path outfile
      else numbered new_folder_path (fst (splitext outfile)) k)"

definition spec_candidate :: "string \<Rightarrow> string \<Rightarrow> nat \<Rightarrow> string" where
  "spec_candidate new_folder_path base_name k =
     (if k = 0 then path_join new_folder_path base_name
      else path_join new_folder_path
             (fst (splitext base_name) @ ''_'' @ str_nat k @ snd (splitext base_name)))"

definition parent_of :: "filesystem \<Rightarrow> string \<Rightarrow> exn + node" where
  "parent_of fsys p = walk fsys (start_node fsys p) (butlast (split_sep p))"

definition siblings :: "filesystem \<Rightarrow> string \<Rightarrow> node list" where
  "siblings fsys p =
     (case resolve fsys p of
        Inl e \<Rightarrow> []
      | Inr n \<Rightarrow> filter (\<lambda>m. m \<noteq> [] \<and> butlast m = butlast n) (entries fsys))"

definition grows :: "filesystem \<Rightarrow> filesystem \<Rightarrow> bool" where
  "grows fsys fs' \<longleftrightarrow>
     cwd fs' = cwd fsys \<and> set (dirs fsys) \<subseteq> set (dirs fs') \<and>
     set (map fst (files fsys)) \<subseteq> set (map fst (files fs'))"

definition prepared :: "filesystem \<Rightarrow> string \<Rightarrow> filesystem" where
  "prepared fsys dir = snd (makedirs (snd (makedirs fsys dir)) (path_join dir ''log_files''))"

subsection \<open>Example worlds\<close>

text \<open>
  A file system with one home directory, which is the working directory, and a device
  whose registers hold 230.15 V, 1.02 A, 45.6 W and 1234 Wh with no alarm.
  \<open>failing_device n e\<close> is that device, except that its \<open>n\<close>-th answer raises \<open>e\<close>.
  In \<open>blocked_fs\<close> a regular file named \<open>log_files\<close> stands where the folder should be;
  in \<open>upper_fs\<close> the folder holds a log named \<open>LOG.CSV\<close>.
\<close>

definition example_fs :: filesystem where
  "example_fs = \<lparr>cwd = [''home''], dirs = [[''home'']], files = [], readonly = []\<rparr>"

definition blocked_fs :: filesystem where
  "blocked_fs = \<lparr>cwd = [''home''], dirs = [[''home''], [''tmp'']],
                  files = [([''home'', ''log_files''], [])], readonly = []\<rparr>"

definition upper_fs :: filesystem where
  "upper_fs = \<lparr>cwd = [''home''], dirs = [[''home''], [''home'', ''log_files'']],
                files = [([''home'', ''log_files'', ''LOG.CSV''], [])], readonly = []\<rparr>"

definition example_regs :: "nat \<Rightarrow> 16 word" where
  "example_regs a =
     (if a = 0 then 23015 else if a = 1 then 102 else if a = 2 then 456 else if a = 4 then 1234 else 0)"

definition failing_device :: "nat \<Rightarrow> exn \<Rightarrow> nat \<Rightarrow> nat \<Rightarrow> resp" where
  "failing_device n e k a = (if k = n then Raises e else Value (example_regs a))"

definition world_with :: "(nat \<Rightarrow> nat \<Rightarrow> resp) \<Rightarrow> filesystem \<Rightarrow> world" where
  "world_with dev fsys =
     \<lparr>inst = \<lparr>device = dev, requests = 0, serial_open = False\<rparr>,
      fs = fsys, stdout = [],
      clock = (\<lambda>t. ''2024-01-01 12:00:0'' @ str_nat t), ticks = 0,
      float_repr = (\<lambda>r. ''?'')\<rparr>"

definition example_world :: world where
  "example_world = world_with (\<lambda>k a. Value (example_regs a)) example_fs"

text \<open>What an observer sees of a run of \<open>main\<close> and of a call of \<open>log_file\<close>.\<close>

definition outcome :: "(status \<times> world) option \<Rightarrow> (status \<times> string list option \<times> string list \<times> bool) option" where
  "outcome r =
     (case r of
        None \<Rightarrow> None
      | Some (st, w) \<Rightarrow>
          Some (st, file_records (fs w) ''./log_files/pzem_logs.csv'', stdout w, serial_open (inst w)))"

definition log_outcome :: "((exn + string) \<times> world) option \<Rightarrow> ((exn + string) \<times> string list \<times> bool) option" where
  "log_outcome r =
     (case r of
        None \<Rightarrow> None
      | Some (res, w) \<Rightarrow> Some (res, stdout w, path_isdir (fs w) ''./log_files''))"

definition header_text :: string where
  "header_text = ''Time,Voltage in V,Current in A,Power in W,Energy in Wh,High Voltage Alarm,Low Voltage Alarm''"

text \<open>
  \<open>two_logs_fs\<close> is the folder after two runs. \<open>log_again\<close> calls \<open>log_file\<close> once
  more in the world a successful call left; \<open>new_log_records\<close> reads the file a call
  returned, \<open>dir_after\<close> asks for a directory in the world a call left.
\<close>

definition two_logs_fs :: filesystem where
  "two_logs_fs = \<lparr>cwd = [''home''], dirs = [[''home''], [''home'', ''log_files'']],
     files = [([''home'', ''log_files'', ''pzem_logs.csv''], [header_text]),
              ([''home'', ''log_files'', ''pzem_logs_1.csv''], [header_text])],
     readonly = []\<rparr>"

definition log_again :: "((exn + string) \<times> world) option \<Rightarrow> ((exn + string) \<times> world) option" where
  "log_again r = (case r of Some (Inr p, w) \<Rightarrow> log_file ''pzem_logs.csv'' ''./'' w | _ \<Rightarrow> None)"

definition new_log_records :: "((exn + string) \<times> world) option \<Rightarrow> string list option" where
  "new_log_records r = (case r of Some (Inr p, w) \<Rightarrow> file_records (fs w) p | _ \<Rightarrow> None)"

definition dir_after :: "((exn + string) \<times> world) option \<Rightarrow> string \<Rightarrow> bool" where
  "dir_after r d = (case r of Some (res, w) \<Rightarrow> path_isdir (fs w) d | None \<Rightarrow> False)"

section \<open>Evaluation\<close>

lemmas eval_defs =
  main_def init_def log_file_def makedirs_def ensure_dir_def splitext_def rfind_def
  lower_def lower_char_def path_join_def path_exists_def path_isdir_def header_def unused_name.simps
  serial_close_def on_interrupt_def iteration_def write_results_def
  open_append_def resolve_def start_node_def is_dir_def is_file_def creatable_def
  read_pzem_data_body_def try_block_def rd_def read_register_def strftime_def Let_def
  write_record_def csv_record_def csv_field_def str_cell_def str_int_def digit_char_def
  print_def file_records_def example_fs_def blocked_fs_def example_regs_def failing_device_def
  world_with_def example_world_def outcome_def log_outcome_def header_text_def
  str_nat.simps two_logs_fs_def log_again_def new_log_records_def dir_after_def
  upper_fs_def spec_candidate_def

lemmas float_defs =
  fround_def float_of_int_def decimal_def bit_length.simps normalise.simps

section \<open>Decoding the registers\<close>

text \<open>
  Claim C1. When all eight reads of a poll succeed, the generator yields the row whose
  power is the float product \<open>((power_high << 16) + power_low) * 0.1\<close> and whose energy is
  the float of \<open>(energy_high << 16) + energy_low\<close>, where \<open>power_low\<close> and \<open>energy_low\<close>
  are the registers 2 and 4 and the high words the registers 3 and 5; the low word is the
  value of the sum modulo \<open>2 ^ 16\<close>. With \<open>power_low = 456\<close> and \<open>power_high = 0\<close> the
  power is the float \<open>45.6\<close>.
\<close>

theorem decode_power_energy:
  assumes "device (inst w) (requests (inst w)) 0 = Value v"
    and "device (inst w) (requests (inst w) + 1) 1 = Value c"
    and "device (inst w) (requests (inst w) + 2) 2 = Value power_low"
    and "device (inst w) (requests (inst w) + 3) 3 = Value power_high"
    and "device (inst w) (requests (inst w) + 4) 4 = Value energy_low"
    and "device (inst w) (requests (inst w) + 5) 5 = Value energy_high"
    and "device (inst w) (requests (inst w) + 6) 6 = Value hva"
    and "device (inst w) (requests (inst w) + 7) 7 = Value lva"
  shows "fst (gen_next Fresh w) =
           Inr (Some [StrCell (clock w (ticks w)),
                      FloatCell (fround (unat v) 100), FloatCell (fround (unat c) 100),
                      FloatCell (fmul (float_of_int (uint power_high * 2 ^ 16 + uint power_low)) (decimal 1 1)),
                      FloatCell (float_of_int (uint energy_high * 2 ^ 16 + uint energy_low)),
                      IntCell (uint hva), IntCell (uint lva)])
       \<and> (uint power_high * 2 ^ 16 + uint power_low) mod 2 ^ 16 = uint power_low
       \<and> (uint energy_high * 2 ^ 16 + uint energy_low) mod 2 ^ 16 = uint energy_low
       \<and> fmul (float_of_int (0 * 2 ^ 16 + 456)) (decimal 1 1) = decimal 456 1"
proof -
  let ?row = "[StrCell (clock w (ticks w)),
                      FloatCell (fround (unat v) 100), FloatCell (fround (unat c) 100),
                      FloatCell (fmul (float_of_int (uint power_high * 2 ^ 16 + uint power_low)) (decimal 1 1)),
                      FloatCell (float_of_int (uint energy_high * 2 ^ 16 + uint energy_low)),
                      IntCell (uint hva), IntCell (uint lva)]"
  have lo: "(uint h * 2 ^ 16 + uint l) mod 2 ^ 16 = uint l" for h l :: "16 word"
  proof -
    have "uint l < 2 ^ 16" using uint_bounded [of l] by simp
    then show ?thesis by simp
  qed
  have ex: "fmul (float_of_int (0 * 2 ^ 16 + 456)) (decimal 1 1) = decimal 456 1"
    by (simp add: float_defs Let_def)
  have "fst (try_block w) = Inr ?row"
    using assms
    by (simp add: try_block_def rd_def read_register_def strftime_def push_bit_eq_mult eval_nat_numeral Let_def)
  then obtain w1 where "try_block w = (Inr ?row, w1)"
    by (cases "try_block w") simp
  then have "fst (gen_next Fresh w) = Inr (Some ?row)"
    by (simp add: read_pzem_data_body_def)
  then show ?thesis
    using lo [of power_high power_low] lo [of energy_high energy_low] ex by blast
qed

theorem decode_power_energy_witness:
  "fst (gen_next Fresh example_world) =
     Inr (Some [StrCell ''2024-01-01 12:00:00'', FloatCell (decimal 23015 2), FloatCell (decimal 102 2),
                FloatCell (decimal 456 1), FloatCell (decimal 1234 0), IntCell 0, IntCell 0])"
proof -
  have f: "fround 23015 100 = decimal 23015 2" "fround 102 100 = decimal 102 2"
    "fmul (float_of_int 456) (decimal 1 1) = decimal 456 1" "float_of_int 1234 = decimal 1234 0"
    by (simp_all add: float_defs Let_def)
  from decode_power_energy [of example_world 23015 102 456 0 1234 0 0 0] f show ?thesis
    by (simp add: example_world_def world_with_def example_regs_def digit_char_def str_nat.simps)
qed

text \<open>
  The product with \<open>0.1\<close> is not the quotient by ten: for the raw power 3 the row holds
  \<open>0.30000000000000004\<close>, which is not the float \<open>0.3\<close>.
\<close>

lemma times_tenth_is_not_tenth:
  "fmul (float_of_int 3) (decimal 1 1) = PyFloat 1351079888211149 (- 52)
   \<and> decimal 3 1 = PyFloat 5404319552844595 (- 54)
   \<and> fmul (float_of_int 3) (decimal 1 1) \<noteq> decimal 3 1"
  by (simp add: float_defs Let_def)

section \<open>The unbound \<open>row_data\<close>\<close>

text \<open>
  Claim C2. A poll in which a read raises the illegal-request error is said to be skipped:
  no row, a diagnostic, and the loop goes on, so that three cycles with one failing cycle
  leave two rows. Evaluated on a device whose ninth answer (the first read of the second
  poll) raises that error: the diagnostic is printed and no partial row is written, but
  the \<open>finally\<close> clause then raises UnboundLocalError, \<open>main\<close> does not catch it, and
  the run ends after one row with the serial port still open.
\<close>

theorem illegal_request_ends_run:
  "outcome (main [False, False, False]
      (world_with (failing_device 8 (IllegalRequestError ''Slave reported illegal data address'')) example_fs)) =
   Some (Crashed (UnboundLocalError ''row_data''),
         Some [header_text, ''2024-01-01 12:00:00,?,?,?,?,0,0''],
         [''Instrument and log file successfully initialized. Logging to CSV file now...'',
          ''Error: Slave reported illegal data address''],
         True)"
  by (simp add: eval_defs)

text \<open>
  Claim C4. An error other than the illegal-request error is said to leave the read path
  as it is. Evaluated on a device whose first answer raises a communication error: what
  leaves the generator, and ends the run, is the UnboundLocalError of the \<open>finally\<close>
  clause, not the error that was raised.
\<close>

theorem other_error_is_replaced:
  "fst (gen_next Fresh (world_with (failing_device 0 (OtherError ''No communication with the instrument'')) example_fs)) =
     Inl (UnboundLocalError ''row_data'')
   \<and> outcome (main [False] (world_with (failing_device 0 (OtherError ''No communication with the instrument'')) example_fs)) =
     Some (Crashed (UnboundLocalError ''row_data''), Some [header_text],
           [''Instrument and log file successfully initialized. Logging to CSV file now...''], True)"
  by (simp add: eval_defs)

text \<open>
  Claim C7. An operator interrupt is said to end every run with the reading flushed, the
  serial port closed and a normal exit. Evaluated at three points of delivery: during the
  third read of the second poll the run ends with UnboundLocalError and the port open;
  at the head of the first iteration \<open>data_gen\<close> is still unbound and the handler
  itself fails; at the head of the second iteration the handler closes the port and the
  loop is left.
\<close>

theorem interrupt_during_read_crashes:
  "outcome (main [False, False] (world_with (failing_device 10 KeyboardInterrupt) example_fs)) =
     Some (Crashed (UnboundLocalError ''row_data''),
           Some [header_text, ''2024-01-01 12:00:00,?,?,?,?,0,0''],
           [''Instrument and log file successfully initialized. Logging to CSV file now...''], True)
   \<and> outcome (main [True] example_world) =
     Some (Crashed (UnboundLocalError ''data_gen''), Some [header_text],
           [''Instrument and log file successfully initialized. Logging to CSV file now...''], True)
   \<and> outcome (main [False, True] example_world) =
     Some (Exited, Some [header_text, ''2024-01-01 12:00:00,?,?,?,?,0,0''],
           [''Instrument and log file successfully initialized. Logging to CSV file now...''], False)"
  by (simp add: eval_defs)

section \<open>The folder that cannot be made\<close>

text \<open>
  Claim C8. \<open>log_file\<close> is said to fail with OSError whenever the folder \<open>log_files\<close>
  cannot be made. Evaluated where a regular file of that name is in the way: the handler
  prints the error and the function goes on. With an absolute \<open>outfile\<close> it creates the
  log file elsewhere and returns its path; with the default name the later \<open>open\<close>
  raises an OSError of its own.
\<close>

theorem folder_error_is_swallowed:
  "log_outcome (log_file ''/tmp/out.csv'' ''./'' (world_with (\<lambda>k a. Value 0) blocked_fs)) =
     Some (Inr ''/tmp/out.csv'', [''Error creating folder ./log_files: EEXIST''], False)
   \<and> log_outcome (log_file ''pzem_logs.csv'' ''./'' (world_with (\<lambda>k a. Value 0) blocked_fs)) =
     Some (Inl (OSError ''ENOTDIR''), [''Error creating folder ./log_files: EEXIST''], False)"
  by (simp add: eval_defs)

section \<open>Paths and names\<close>

subsection \<open>Splitting and resolving a path that ends in a plain suffix\<close>

lemma split_sep_nonempty: "split_sep p \<noteq> []"
  by (induction p) (auto split: list.splits)

lemma split_sep_no_slash: "CHR ''/'' \<notin> set s \<Longrightarrow> split_sep s = [s]"
  by (induction s) auto

lemma split_sep_append:
  "CHR ''/'' \<notin> set s \<Longrightarrow> split_sep (p @ s) = butlast (split_sep p) @ [last (split_sep p) @ s]"
proof (induction p)
  case Nil
  then show ?case by (simp add: split_sep_no_slash)
next
  case (Cons c cs)
  obtain y ys where ys: "split_sep cs = y # ys"
    using split_sep_nonempty [of cs] by (cases "split_sep cs") auto
  show ?case
    using Cons ys by (cases ys) auto
qed

lemma walk_append:
  "walk fsys cur (xs @ ys) = (case walk fsys cur xs of Inl e \<Rightarrow> Inl e | Inr m \<Rightarrow> walk fsys m ys)"
  by (induction xs arbitrary: cur) auto

lemma walk_name:
  "x \<noteq> [] \<Longrightarrow> x \<noteq> ''.'' \<Longrightarrow> x \<noteq> ''..'' \<Longrightarrow>
   walk fsys m [x] = Inr n \<longleftrightarrow> is_dir fsys m \<and> n = m @ [x]"
  by auto

lemma start_node_append:
  "s \<noteq> [] \<Longrightarrow> hd s \<noteq> CHR ''/'' \<Longrightarrow> start_node fsys (p @ s) = start_node fsys p"
  by (cases p) (auto simp: start_node_def)

lemma path_join_append:
  "s \<noteq> [] \<Longrightarrow> hd s \<noteq> CHR ''/'' \<Longrightarrow> path_join a (b @ s) = path_join a b @ s"
  by (cases b) (auto simp: path_join_def)

text \<open>The node of a path that ends in a plain suffix of three characters or more.\<close>

lemma resolve_suffix:
  assumes "CHR ''/'' \<notin> set s" and "3 \<le> length s"
  shows "resolve fsys (p @ s) = Inr n \<longleftrightarrow>
           (\<exists>m. walk fsys (start_node fsys p) (butlast (split_sep p)) = Inr m \<and> is_dir fsys m
                \<and> n = m @ [last (split_sep p) @ s])"
proof -
  from assms have s: "s \<noteq> []" "hd s \<noteq> CHR ''/''"
    by (cases s; auto)+
  let ?x = "last (split_sep p) @ s"
  have x: "?x \<noteq> []" "?x \<noteq> ''.''" "?x \<noteq> ''..''"
    using assms(2) by (auto simp: append_eq_Cons_conv)
  have "resolve fsys (p @ s) = walk fsys (start_node fsys p) (butlast (split_sep p) @ [?x])"
    using s assms(1) by (simp add: resolve_def start_node_append split_sep_append)
  then show ?thesis
    using walk_name [OF x] by (auto simp: walk_append split: sum.splits)
qed

subsection \<open>Decimal numbers\<close>

lemma digit_char_digit: "d < 10 \<Longrightarrow> digit_char d \<in> set ''0123456789''"
  unfolding digit_char_def by (rule nth_mem) simp

lemma digit_char_inj: "a < 10 \<Longrightarrow> b < 10 \<Longrightarrow> digit_char a = digit_char b \<Longrightarrow> a = b"
proof -
  have d: "distinct ''0123456789''" by simp
  show "a < 10 \<Longrightarrow> b < 10 \<Longrightarrow> digit_char a = digit_char b \<Longrightarrow> a = b"
    unfolding digit_char_def using nth_eq_iff_index_eq [OF d, of a b] by simp
qed

lemma str_nat_digits: "set (str_nat n) \<subseteq> set ''0123456789''"
proof (induction n rule: str_nat.induct)
  case (1 n)
  show ?case
  proof (cases "n < 10")
    case True
    then show ?thesis using digit_char_digit [of n] by (subst str_nat.simps) simp
  next
    case False
    have "n mod 10 < 10" by simp
    then have "digit_char (n mod 10) \<in> set ''0123456789''" by (rule digit_char_digit)
    with False 1 show ?thesis by (subst str_nat.simps) simp
  qed
qed

lemma str_nat_nonempty: "str_nat n \<noteq> []"
  by (subst str_nat.simps) simp

lemma str_nat_small: "n < 10 \<Longrightarrow> str_nat n = [digit_char n]"
  by (subst str_nat.simps) simp

lemma str_nat_big: "\<not> n < 10 \<Longrightarrow> str_nat n = str_nat (n div 10) @ [digit_char (n mod 10)]"
  by (subst str_nat.simps) simp

lemma str_nat_inj: "str_nat m = str_nat n \<Longrightarrow> m = n"
proof (induction m arbitrary: n rule: str_nat.induct)
  case (1 m)
  show ?case
  proof (cases "m < 10")
    case m: True
    show ?thesis
    proof (cases "n < 10")
      case True
      with m 1(2) show ?thesis
        by (simp add: str_nat_small digit_char_inj)
    next
      case False
      with m 1(2) str_nat_nonempty [of "n div 10"] show ?thesis
        by (simp add: str_nat_small str_nat_big)
    qed
  next
    case m: False
    show ?thesis
    proof (cases "n < 10")
      case True
      with m 1(2) str_nat_nonempty [of "m div 10"] show ?thesis
        by (simp add: str_nat_small str_nat_big)
    next
      case False
      with m 1(2) have a: "str_nat (m div 10) = str_nat (n div 10)"
        and b: "digit_char (m mod 10) = digit_char (n mod 10)"
        by (simp_all add: str_nat_big)
      from 1(1) [OF m a] have "m div 10 = n div 10" .
      moreover from b have "m mod 10 = n mod 10"
        by (intro digit_char_inj) auto
      ultimately show ?thesis
        by (metis div_mult_mod_eq)
    qed
  qed
qed

subsection \<open>The numbered names resolve to different nodes\<close>

lemma name_suffix_plain: "CHR ''/'' \<notin> set (name_suffix k)"
  using str_nat_digits [of k] by (auto simp: name_suffix_def)

lemma name_suffix_length: "6 \<le> length (name_suffix k)"
  using str_nat_nonempty [of k] by (cases "str_nat k") (auto simp: name_suffix_def)

lemma name_suffix_inj: "name_suffix j = name_suffix k \<Longrightarrow> j = k"
  by (auto simp: name_suffix_def dest: str_nat_inj)

lemma numbered_eq: "numbered folder fn k = path_join folder fn @ name_suffix k"
proof -
  have "numbered folder fn k = path_join folder (fn @ name_suffix k)"
    by (simp add: numbered_def name_suffix_def)
  also have "\<dots> = path_join folder fn @ name_suffix k"
    by (rule path_join_append) (simp_all add: name_suffix_def)
  finally show ?thesis .
qed

lemma exists_entry:
  assumes "CHR ''/'' \<notin> set s" and "3 \<le> length s" and "path_exists fsys (p @ s)"
  shows "\<exists>m. parent_of fsys p = Inr m \<and> resolve fsys (p @ s) = Inr (m @ [last (split_sep p) @ s])
            \<and> m @ [last (split_sep p) @ s] \<in> set (entries fsys)"
proof -
  from assms(3) obtain n where n: "resolve fsys (p @ s) = Inr n" and e: "is_dir fsys n \<or> is_file fsys n"
    by (auto simp: path_exists_def split: sum.splits)
  from n obtain m where m: "parent_of fsys p = Inr m" "n = m @ [last (split_sep p) @ s]"
    using resolve_suffix [OF assms(1,2), of fsys p n] by (auto simp: parent_of_def)
  from e m(2) have "n \<in> set (entries fsys)"
    by (auto simp: is_dir_def is_file_def entries_def)
  with n m show ?thesis by auto
qed

lemma free_number: "\<exists>k\<ge>n. \<not> path_exists fsys (numbered folder fn k)"
proof (rule ccontr)
  assume "\<not> ?thesis"
  then have all: "\<And>k. n \<le> k \<Longrightarrow> path_exists fsys (path_join folder fn @ name_suffix k)"
    by (auto simp: numbered_eq)
  let ?p = "path_join folder fn"
  have ex: "\<exists>m. parent_of fsys ?p = Inr m \<and> m @ [last (split_sep ?p) @ name_suffix k] \<in> set (entries fsys)"
    if "n \<le> k" for k
    using exists_entry [OF name_suffix_plain _ all [OF that]] name_suffix_length [of k] by auto
  from ex [of n] obtain m where m: "parent_of fsys ?p = Inr m" by auto
  let ?g = "\<lambda>k. m @ [last (split_sep ?p) @ name_suffix k]"
  have "?g ` {n..} \<subseteq> set (entries fsys)"
    using ex m by auto
  then have "finite (?g ` {n..})"
    by (rule finite_subset) simp
  moreover have "inj_on ?g {n..}"
    by (auto simp: inj_on_def dest: name_suffix_inj)
  ultimately have "finite {n..}"
    by (rule finite_imageD)
  then show False
    by (simp add: infinite_Ici)
qed

lemma unused_name_from:
  assumes "n \<le> k" and "\<not> path_exists fsys (numbered folder fn k)"
    and "\<And>j. n \<le> j \<Longrightarrow> j < k \<Longrightarrow> path_exists fsys (numbered folder fn j)"
  shows "unused_name fsys folder fn (Suc n) (numbered folder fn n) = Some (Suc k, numbered folder fn k)"
  using assms
proof (induction "k - n" arbitrary: n)
  case 0
  then have "n = k" by simp
  with 0 show ?case
    by (subst unused_name.simps) simp
next
  case (Suc d)
  then have lt: "n < k" by simp
  with Suc.prems have ex: "path_exists fsys (numbered folder fn n)" by simp
  have "unused_name fsys folder fn (Suc (Suc n)) (numbered folder fn (Suc n)) = Some (Suc k, numbered folder fn k)"
    using Suc by (intro Suc.hyps(1)) auto
  with ex show ?case
    by (subst unused_name.simps) (simp add: numbered_def)
qed

text \<open>The loop as a function of the file system: the first name that is free.\<close>

lemma unused_name_result:
  "\<exists>k. unused_name fsys folder fn 1 p0 =
          Some (if path_exists fsys p0 then (Suc k, numbered folder fn k) else (1, p0))
      \<and> 1 \<le> k \<and> \<not> path_exists fsys (numbered folder fn k)
      \<and> (\<forall>j. 1 \<le> j \<and> j < k \<longrightarrow> path_exists fsys (numbered folder fn j))"
proof -
  define k where "k = (LEAST k. 1 \<le> k \<and> \<not> path_exists fsys (numbered folder fn k))"
  from free_number [of 1 fsys folder fn]
  have "\<exists>k. 1 \<le> k \<and> \<not> path_exists fsys (numbered folder fn k)" by auto
  then have k: "1 \<le> k \<and> \<not> path_exists fsys (numbered folder fn k)"
    unfolding k_def by (rule LeastI_ex)
  have least: "path_exists fsys (numbered folder fn j)" if "1 \<le> j" "j < k" for j
    using that not_less_Least [of j "\<lambda>k. 1 \<le> k \<and> \<not> path_exists fsys (numbered folder fn k)"]
    by (auto simp: k_def)
  have loop: "unused_name fsys folder fn (Suc 1) (numbered folder fn 1) = Some (Suc k, numbered folder fn k)"
    using k least by (intro unused_name_from) auto
  have "unused_name fsys folder fn 1 p0 =
          Some (if path_exists fsys p0 then (Suc k, numbered folder fn k) else (1, p0))"
    using loop by (subst unused_name.simps) (simp add: numbered_def)
  with k least show ?thesis by blast
qed

lemma splitext_append: "fst (splitext p) @ snd (splitext p) = p"
  by (simp add: splitext_def Let_def)

lemma lower_char_slash: "lower_char c = CHR ''/'' \<longleftrightarrow> c = CHR ''/''"
  by (auto simp: lower_char_def split: option.splits if_splits)

lemma csv_extension:
  assumes "lower ext = ''.csv''"
  shows "CHR ''/'' \<notin> set ext" and "length ext = 4"
proof -
  from assms have "length (lower ext) = 4" by simp
  then show "length ext = 4" by (simp add: lower_def)
  show "CHR ''/'' \<notin> set ext"
  proof
    assume "CHR ''/'' \<in> set ext"
    then have "lower_char CHR ''/'' \<in> set (lower ext)"
      unfolding lower_def by (simp only: set_map) (rule imageI)
    with assms show False by (simp add: lower_char_slash [THEN iffD2])
  qed
qed

lemma candidate_eq:
  assumes "lower (snd (splitext outfile)) = ''.csv''"
  shows "candidate folder outfile k =
           path_join folder (fst (splitext outfile)) @ (if k = 0 then snd (splitext outfile) else name_suffix k)"
proof (cases "k = 0")
  case True
  let ?ext = "snd (splitext outfile)"
  from csv_extension [OF assms] have "?ext \<noteq> []" "hd ?ext \<noteq> CHR ''/''"
    by (cases ?ext; auto)+
  then have "path_join folder (fst (splitext outfile) @ ?ext) = path_join folder (fst (splitext outfile)) @ ?ext"
    by (rule path_join_append)
  with True show ?thesis by (simp add: candidate_def splitext_append)
next
  case False
  then show ?thesis by (simp add: candidate_def numbered_eq)
qed

lemma candidate_suffix:
  assumes "lower (snd (splitext outfile)) = ''.csv''"
  shows "CHR ''/'' \<notin> set (if k = 0 then snd (splitext outfile) else name_suffix k)"
    and "3 \<le> length (if k = 0 then snd (splitext outfile) else name_suffix k)"
    and "(if i = 0 then snd (splitext outfile) else name_suffix i) =
         (if j = 0 then snd (splitext outfile) else name_suffix j) \<Longrightarrow> i = j"
proof -
  note ext = csv_extension [OF assms(1)]
  show "CHR ''/'' \<notin> set (if k = 0 then snd (splitext outfile) else name_suffix k)"
    using ext name_suffix_plain by simp
  show "3 \<le> length (if k = 0 then snd (splitext outfile) else name_suffix k)"
    using ext name_suffix_length [of k] by simp
  show "(if i = 0 then snd (splitext outfile) else name_suffix i) =
        (if j = 0 then snd (splitext outfile) else name_suffix j) \<Longrightarrow> i = j"
    using ext(2) name_suffix_length [of i] name_suffix_length [of j]
    by (auto dest: name_suffix_inj split: if_splits)
qed

lemma candidate_inj:
  assumes "lower (snd (splitext outfile)) = ''.csv''"
  shows "inj (candidate folder outfile)"
proof (rule injI)
  fix i j assume "candidate folder outfile i = candidate folder outfile j"
  then show "i = j"
    using candidate_suffix(3) [OF assms, of i j] by (simp only: candidate_eq [OF assms] same_append_eq)
qed

lemma taken_candidates_bound:
  assumes csv: "lower (snd (splitext outfile)) = ''.csv''"
    and taken: "\<And>j. j < k \<Longrightarrow> path_exists fsys (candidate folder outfile j)"
  shows "k \<le> length (siblings fsys (path_join folder outfile))"
proof (cases k)
  case 0
  then show ?thesis by simp
next
  case (Suc k')
  define p where "p = path_join folder (fst (splitext outfile))"
  define s where "s = (\<lambda>j. if j = 0 then snd (splitext outfile) else name_suffix j)"
  define l where "l = last (split_sep p)"
  have cand: "candidate folder outfile j = p @ s j" for j
    using candidate_eq [OF csv, of folder j] by (simp add: p_def s_def)
  have plain: "CHR ''/'' \<notin> set (s j)" and long: "3 \<le> length (s j)" for j
    using candidate_suffix(1,2) [OF csv, of j] by (simp_all add: s_def)
  have sinj: "i = j" if "s i = s j" for i j
    using candidate_suffix(3) [OF csv, of i j] that by (simp add: s_def)
  have ex: "\<exists>m. parent_of fsys p = Inr m \<and> resolve fsys (p @ s j) = Inr (m @ [l @ s j])
            \<and> m @ [l @ s j] \<in> set (entries fsys)" if "j < k" for j
  proof -
    from taken [OF that] have "path_exists fsys (p @ s j)" by (simp only: cand)
    from exists_entry [OF plain long this] show ?thesis by (simp only: l_def)
  qed
  from ex [of 0] Suc obtain m where m: "parent_of fsys p = Inr m"
    and r0: "resolve fsys (p @ s 0) = Inr (m @ [l @ s 0])" by auto
  have "path_join folder outfile = p @ s 0"
    using cand [of 0] by (simp add: candidate_def)
  with r0 have sib: "siblings fsys (path_join folder outfile) =
      filter (\<lambda>e. e \<noteq> [] \<and> butlast e = m) (entries fsys)"
    by (simp add: siblings_def)
  define h where "h = (\<lambda>j. m @ [l @ s j])"
  have sub: "h ` {..<k} \<subseteq> set (siblings fsys (path_join folder outfile))"
  proof
    fix x assume "x \<in> h ` {..<k}"
    then obtain j where j: "j < k" "x = h j" by auto
    from ex [OF j(1)] m have "m @ [l @ s j] \<in> set (entries fsys)" by auto
    with j show "x \<in> set (siblings fsys (path_join folder outfile))"
      by (simp add: h_def sib)
  qed
  have "inj_on h {..<k}"
  proof (rule inj_onI)
    fix i j assume "h i = h j"
    then have "s i = s j" by (simp add: h_def)
    then show "i = j" by (rule sinj)
  qed
  then have "card (h ` {..<k}) = k"
    by (simp add: card_image)
  moreover from sub have "card (h ` {..<k}) \<le> card (set (siblings fsys (path_join folder outfile)))"
    by (intro card_mono) auto
  moreover have "card (set (siblings fsys (path_join folder outfile))) \<le> length (siblings fsys (path_join folder outfile))"
    by (rule card_length)
  ultimately show ?thesis by linarith
qed

lemma unused_name_candidate:
  assumes "lower (snd (splitext outfile)) = ''.csv''"
  shows "\<exists>n. unused_name fsys folder (fst (splitext outfile)) 1 (path_join folder outfile) =
               Some (n, candidate folder outfile (n - 1))
            \<and> \<not> path_exists fsys (candidate folder outfile (n - 1))
            \<and> (\<forall>j<n - 1. path_exists fsys (candidate folder outfile j))"
proof -
  let ?fn = "fst (splitext outfile)" and ?p0 = "path_join folder outfile"
  from unused_name_result [of fsys folder ?fn ?p0] obtain k
    where res: "unused_name fsys folder ?fn 1 ?p0 =
                  Some (if path_exists fsys ?p0 then (Suc k, numbered folder ?fn k) else (1, ?p0))"
      and k: "1 \<le> k" "\<not> path_exists fsys (numbered folder ?fn k)"
      and before: "\<And>j. 1 \<le> j \<Longrightarrow> j < k \<Longrightarrow> path_exists fsys (numbered folder ?fn j)"
    by blast
  show ?thesis
  proof (cases "path_exists fsys ?p0")
    case False
    with res have "unused_name fsys folder ?fn 1 ?p0 = Some (1, candidate folder outfile 0)"
      by (simp add: candidate_def)
    moreover from False have "\<not> path_exists fsys (candidate folder outfile 0)"
      by (simp add: candidate_def)
    ultimately show ?thesis
      by (intro exI [of _ 1]) simp
  next
    case True
    have taken: "path_exists fsys (candidate folder outfile j)" if "j < k" for j
      using that True before [of j] by (cases "j = 0") (auto simp: candidate_def)
    from True res have "unused_name fsys folder ?fn 1 ?p0 = Some (Suc k, numbered folder ?fn k)"
      by simp
    moreover from k have "numbered folder ?fn k = candidate folder outfile k"
      by (simp add: candidate_def)
    ultimately show ?thesis
      using k(2) taken by (intro exI [of _ "Suc k"]) simp
  qed
qed


section \<open>The loop of \<open>log_file\<close> ends\<close>

text \<open>
  Claim C10. The loop that avoids existing names terminates in every file system: for an
  \<open>outfile\<close> that passed the extension check it returns, the path it returns is the
  first candidate (\<open>base\<close>, \<open>base_1\<close>, \<open>base_2\<close>, ...) that does not exist, every
  earlier candidate exists, the counter has advanced by one for each of them, their
  number is at most the number of entries that exist in the directory of the log file,
  and the candidates are pairwise distinct.
\<close>

theorem unused_name_terminates:
  assumes "lower (snd (splitext outfile)) = ''.csv''"
  shows "\<exists>n. unused_name fsys folder (fst (splitext outfile)) 1 (path_join folder outfile) =
               Some (n, candidate folder outfile (n - 1))
            \<and> \<not> path_exists fsys (candidate folder outfile (n - 1))
            \<and> (\<forall>j<n - 1. path_exists fsys (candidate folder outfile j))
            \<and> n - 1 \<le> length (siblings fsys (path_join folder outfile))
            \<and> inj (candidate folder outfile)"
proof -
  from unused_name_candidate [OF assms, of fsys folder] obtain n
    where n: "unused_name fsys folder (fst (splitext outfile)) 1 (path_join folder outfile) =
               Some (n, candidate folder outfile (n - 1))"
      "\<not> path_exists fsys (candidate folder outfile (n - 1))"
      "\<And>j. j < n - 1 \<Longrightarrow> path_exists fsys (candidate folder outfile j)"
    by blast
  from taken_candidates_bound [OF assms n(3)]
  have "n - 1 \<le> length (siblings fsys (path_join folder outfile))" by simp
  with n candidate_inj [OF assms, of folder] show ?thesis by blast
qed


theorem unused_name_terminates_witness:
  "lower (snd (splitext ''pzem_logs.csv'')) = ''.csv''
   \<and> unused_name two_logs_fs ''./log_files'' ''pzem_logs'' 1 ''./log_files/pzem_logs.csv'' =
       Some (3, ''./log_files/pzem_logs_2.csv'')
   \<and> length (siblings two_logs_fs ''./log_files/pzem_logs.csv'') = 2
   \<and> (\<exists>n. unused_name two_logs_fs ''./log_files'' (fst (splitext ''pzem_logs.csv'')) 1
             (path_join ''./log_files'' ''pzem_logs.csv'') =
               Some (n, candidate ''./log_files'' ''pzem_logs.csv'' (n - 1))
          \<and> n - 1 \<le> length (siblings two_logs_fs (path_join ''./log_files'' ''pzem_logs.csv'')))"
proof -
  have h: "lower (snd (splitext ''pzem_logs.csv'')) = ''.csv''"
    by (simp add: eval_defs)
  have e: "unused_name two_logs_fs ''./log_files'' ''pzem_logs'' 1 ''./log_files/pzem_logs.csv'' =
       Some (3, ''./log_files/pzem_logs_2.csv'')"
    by (simp add: eval_defs)
  have s: "length (siblings two_logs_fs ''./log_files/pzem_logs.csv'') = 2"
    by (simp add: siblings_def entries_def eval_defs)
  from unused_name_terminates [OF h, of two_logs_fs "''./log_files''"] h e s show ?thesis
    by blast
qed


section \<open>Directories are only added\<close>

lemma grows_refl: "grows fsys fsys"
  by (simp add: grows_def)

lemma grows_trans: "grows a b \<Longrightarrow> grows b c \<Longrightarrow> grows a c"
  unfolding grows_def by (metis subset_trans)

lemma grows_is_dir: "grows fsys fs' \<Longrightarrow> is_dir fsys n \<Longrightarrow> is_dir fs' n"
  by (auto simp: grows_def is_dir_def)

lemma grows_is_file: "grows fsys fs' \<Longrightarrow> is_file fsys n \<Longrightarrow> is_file fs' n"
  by (auto simp: grows_def is_file_def)

lemma walk_grows: "grows fsys fs' \<Longrightarrow> walk fsys cur cs = Inr n \<Longrightarrow> walk fs' cur cs = Inr n"
proof (induction cs arbitrary: cur)
  case Nil
  then show ?case by simp
next
  case (Cons c cs)
  from Cons.prems have d: "is_dir fsys cur" by (auto split: if_splits)
  with Cons.prems(1) have "is_dir fs' cur" by (rule grows_is_dir)
  with d Cons show ?case by (auto split: if_splits)
qed

lemma start_node_grows: "grows fsys fs' \<Longrightarrow> start_node fs' p = start_node fsys p"
  by (simp add: start_node_def grows_def)

lemma resolve_grows: "grows fsys fs' \<Longrightarrow> resolve fsys p = Inr n \<Longrightarrow> resolve fs' p = Inr n"
proof -
  assume g: "grows fsys fs'" and r: "resolve fsys p = Inr n"
  from r have p: "p \<noteq> []" and "walk fsys (start_node fsys p) (split_sep p) = Inr n"
    by (auto simp: resolve_def split: if_splits)
  from walk_grows [OF g this(2)] p show "resolve fs' p = Inr n"
    by (simp add: resolve_def start_node_grows [OF g])
qed

lemma path_exists_grows: "grows fsys fs' \<Longrightarrow> path_exists fsys p \<Longrightarrow> path_exists fs' p"
proof -
  assume g: "grows fsys fs'" and "path_exists fsys p"
  then obtain n where n: "resolve fsys p = Inr n" "is_dir fsys n \<or> is_file fsys n"
    by (auto simp: path_exists_def split: sum.splits)
  from resolve_grows [OF g n(1)] n(2) grows_is_dir [OF g] grows_is_file [OF g]
  show "path_exists fs' p" by (auto simp: path_exists_def)
qed

lemma path_isdir_grows: "grows fsys fs' \<Longrightarrow> path_isdir fsys p \<Longrightarrow> path_isdir fs' p"
proof -
  assume g: "grows fsys fs'" and "path_isdir fsys p"
  then obtain n where n: "resolve fsys p = Inr n" "is_dir fsys n"
    by (auto simp: path_isdir_def split: sum.splits)
  from resolve_grows [OF g n(1)] n(2) grows_is_dir [OF g]
  show "path_isdir fs' p" by (auto simp: path_isdir_def)
qed

lemma ensure_dir_grows: "grows fsys (snd (ensure_dir fsys n))"
  by (auto simp: ensure_dir_def grows_def split: sum.splits)

lemma ensure_dir_files: "files (snd (ensure_dir fsys n)) = files fsys"
  by (auto simp: ensure_dir_def split: sum.splits)

lemma ensure_dir_ok: "fst (ensure_dir fsys n) = Inr u \<Longrightarrow> is_dir (snd (ensure_dir fsys n)) n"
  by (auto simp: ensure_dir_def is_dir_def split: sum.splits if_splits)

lemma ensure_dir_error: "fst (ensure_dir fsys n) = Inl e \<Longrightarrow> \<exists>m. e = OSError m"
  by (auto simp: ensure_dir_def creatable_def split: sum.splits if_splits)

lemma makedirs_walk_grows: "grows fsys (snd (makedirs_walk fsys cur cs))"
proof (induction cs arbitrary: fsys cur)
  case Nil
  show ?case by (simp add: ensure_dir_grows)
next
  case (Cons c cs)
  obtain r fs1 where e: "ensure_dir fsys cur = (r, fs1)" by (cases "ensure_dir fsys cur")
  then have g: "grows fsys fs1" using ensure_dir_grows [of fsys cur] by simp
  show ?case
  proof (cases r)
    case (Inl x)
    with e g show ?thesis by simp
  next
    case (Inr u)
    with e show ?thesis
      by (auto intro: grows_trans [OF g] Cons.IH)
  qed
qed

lemma makedirs_walk_files: "files (snd (makedirs_walk fsys cur cs)) = files fsys"
proof (induction cs arbitrary: fsys cur)
  case Nil
  show ?case by (simp add: ensure_dir_files)
next
  case (Cons c cs)
  obtain r fs1 where e: "ensure_dir fsys cur = (r, fs1)" by (cases "ensure_dir fsys cur")
  then have g: "files fs1 = files fsys" using ensure_dir_files [of fsys cur] by simp
  show ?case
  proof (cases r)
    case (Inl x)
    with e g show ?thesis by simp
  next
    case (Inr u)
    with e g show ?thesis
      by (auto simp: Cons.IH)
  qed
qed

lemma makedirs_walk_error: "fst (makedirs_walk fsys cur cs) = Inl e \<Longrightarrow> \<exists>m. e = OSError m"
proof (induction cs arbitrary: fsys cur)
  case Nil
  then show ?case by (simp add: ensure_dir_error)
next
  case (Cons c cs)
  obtain r fs1 where e: "ensure_dir fsys cur = (r, fs1)" by (cases "ensure_dir fsys cur")
  show ?case
  proof (cases r)
    case (Inl x)
    with e Cons.prems ensure_dir_error [of fsys cur x] show ?thesis by simp
  next
    case (Inr u)
    with e Cons.prems show ?thesis
      by (auto dest: Cons.IH split: if_splits)
  qed
qed

lemma makedirs_walk_ok:
  "fst (makedirs_walk fsys cur cs) = Inr u \<Longrightarrow>
   \<exists>n. walk (snd (makedirs_walk fsys cur cs)) cur cs = Inr n \<and> is_dir (snd (makedirs_walk fsys cur cs)) n"
proof (induction cs arbitrary: fsys cur)
  case Nil
  then show ?case by (simp add: ensure_dir_ok)
next
  case (Cons c cs)
  obtain r fs1 where e: "ensure_dir fsys cur = (r, fs1)" by (cases "ensure_dir fsys cur")
  with Cons.prems obtain v where r: "r = Inr v" by (cases r) auto
  from e r have d1: "is_dir fs1 cur" using ensure_dir_ok [of fsys cur v] by simp
  let ?next = "if c = [] \<or> c = ''.'' then cur else if c = ''..'' then butlast cur else cur @ [c]"
  from e r have step: "makedirs_walk fsys cur (c # cs) = makedirs_walk fs1 ?next cs"
    by simp
  let ?fs' = "snd (makedirs_walk fs1 ?next cs)"
  from Cons.prems step have "fst (makedirs_walk fs1 ?next cs) = Inr u" by simp
  from Cons.IH [OF this] obtain n where n: "walk ?fs' ?next cs = Inr n" "is_dir ?fs' n" by auto
  have "is_dir ?fs' cur"
    using makedirs_walk_grows [of fs1 ?next cs] d1 by (rule grows_is_dir)
  with n have "walk ?fs' cur (c # cs) = Inr n"
    by (cases "c = [] \<or> c = ''.''"; cases "c = ''..''"; simp)
  with n(2) step show ?case by auto
qed

lemma makedirs_grows: "grows fsys (snd (makedirs fsys p))"
  by (simp add: makedirs_def makedirs_walk_grows grows_refl)

lemma makedirs_files: "files (snd (makedirs fsys p)) = files fsys"
  by (simp add: makedirs_def makedirs_walk_files)

lemma makedirs_error: "fst (makedirs fsys p) = Inl e \<Longrightarrow> \<exists>m. e = OSError m"
  by (auto simp: makedirs_def dest: makedirs_walk_error split: if_splits)

lemma makedirs_ok: "fst (makedirs fsys p) = Inr u \<Longrightarrow> path_isdir (snd (makedirs fsys p)) p"
proof -
  assume a: "fst (makedirs fsys p) = Inr u"
  then have p: "p \<noteq> []" by (auto simp: makedirs_def split: if_splits)
  let ?fs' = "snd (makedirs_walk fsys (start_node fsys p) (split_sep p))"
  from a p obtain n where "walk ?fs' (start_node fsys p) (split_sep p) = Inr n" "is_dir ?fs' n"
    using makedirs_walk_ok [of fsys "start_node fsys p" "split_sep p" u] by (auto simp: makedirs_def)
  moreover have "start_node ?fs' p = start_node fsys p"
    by (rule start_node_grows [OF makedirs_walk_grows])
  ultimately show ?thesis
    using p by (simp add: path_isdir_def resolve_def makedirs_def)
qed

lemma prepared_grows: "grows fsys (prepared fsys dir)"
  unfolding prepared_def by (rule grows_trans [OF makedirs_grows makedirs_grows])

lemma open_append_error: "fst (open_append fsys p) = Inl e \<Longrightarrow> \<exists>m. e = OSError m"
proof (cases "resolve fsys p")
  case (Inl x)
  moreover have "\<exists>m. x = OSError m" if "walk fsys cur cs = Inl x" for cur cs
    using that by (induction cs arbitrary: cur) (auto split: if_splits)
  ultimately show "fst (open_append fsys p) = Inl e \<Longrightarrow> \<exists>m. e = OSError m"
    by (auto simp: open_append_def resolve_def split: if_splits)
next
  case (Inr n)
  then show "fst (open_append fsys p) = Inl e \<Longrightarrow> \<exists>m. e = OSError m"
    by (auto simp: open_append_def creatable_def split: if_splits)
qed

section \<open>\<open>log_file\<close>\<close>

lemma unused_name_total: "\<exists>n p. unused_name fsys folder fn 1 p0 = Some (n, p) \<and> \<not> path_exists fsys p"
  using unused_name_result [of fsys folder fn p0] by (cases "path_exists fsys p0") auto

lemma unused_name_free: "unused_name fsys folder fn 1 p0 = Some (n, p) \<Longrightarrow> \<not> path_exists fsys p"
  using unused_name_total [of fsys folder fn p0] by auto

lemma header_record: "csv_record repr header = header_text"
  by (simp add: csv_record_def header_def csv_field_def str_cell_def header_text_def)

lemma log_file_success:
  assumes "log_file outfile dir w = Some (Inr p, w')"
  obtains n f fs3 where "lower (snd (splitext outfile)) = ''.csv''"
    and "unused_name (prepared (fs w) dir) (path_join dir ''log_files'') (fst (splitext outfile)) 1
           (path_join (path_join dir ''log_files'') outfile) = Some (n, p)"
    and "open_append (prepared (fs w) dir) p = (Inr f, fs3)"
    and "fs w' = write_record fs3 f header_text"
  using assms unfolding log_file_def prepared_def Let_def header_record
  by (auto split: prod.splits sum.splits if_splits option.splits simp: print_def)

lemma log_file_total: "\<exists>r. log_file outfile dir w = Some r"
proof -
  obtain r1 fs1 where m1: "makedirs (fs w) dir = (r1, fs1)" by (cases "makedirs (fs w) dir")
  obtain r2 fs2 where m2: "makedirs fs1 (path_join dir ''log_files'') = (r2, fs2)"
    by (cases "makedirs fs1 (path_join dir ''log_files'')")
  obtain n p where u: "unused_name fs2 (path_join dir ''log_files'') (fst (splitext outfile)) 1
           (path_join (path_join dir ''log_files'') outfile) = Some (n, p)"
    using unused_name_total by blast
  obtain r3 fs3 where o: "open_append fs2 p = (r3, fs3)" by (cases "open_append fs2 p")
  show ?thesis
    using m1 m2 u o
    by (cases r1; cases r2; cases r3) (auto simp: log_file_def Let_def print_def split: prod.splits)
qed

lemma open_append_new:
  assumes "\<not> path_exists fsys p" and "open_append fsys p = (Inr f, fs3)"
  shows "resolve fsys p = Inr f" and "fs3 = fsys\<lparr>files := files fsys @ [(f, [])]\<rparr>" and "\<not> is_file fsys f"
  using assms
  by (auto simp: open_append_def path_exists_def split: sum.splits if_splits)

lemma map_of_fresh_append:
  "f \<notin> set (map fst xs) \<Longrightarrow>
   map_of (map (\<lambda>(m, ls). if m = f then (m, ls @ [l]) else (m, ls)) (xs @ [(f, [])])) f = Some [l]"
  by (induction xs) auto

lemma write_record_names: "map fst (files (write_record fsys f l)) = map fst (files fsys)"
proof -
  have "map fst (map (\<lambda>(m, ls). if m = f then (m, ls @ [l]) else (m, ls)) xs) = map fst xs"
    for xs :: "(node \<times> string list) list"
    by (induction xs) auto
  then show ?thesis by (simp add: write_record_def)
qed

lemma new_file_records:
  assumes "\<not> path_exists fsys p" and "open_append fsys p = (Inr f, fs3)"
  shows "file_records (write_record fs3 f l) p = Some [l]"
proof -
  note new = open_append_new [OF assms]
  have "grows fsys (write_record fs3 f l)"
    unfolding grows_def write_record_names by (auto simp: write_record_def new(2))
  from resolve_grows [OF this new(1)] have "resolve (write_record fs3 f l) p = Inr f" .
  moreover from new(3) have nf: "f \<notin> set (map fst (files fsys))"
    by (simp add: is_file_def)
  have "map_of (files (write_record fs3 f l)) f = Some [l]"
    using map_of_fresh_append [OF nf, of l] by (simp add: write_record_def new(2))
  ultimately show ?thesis by (simp add: file_records_def)
qed


text \<open>
  Claim C6. After every successful call of \<open>log_file\<close> the file at the returned path
  holds one record, the header row
  \<open>Time,Voltage in V,Current in A,Power in W,Energy in Wh,High Voltage Alarm,Low Voltage Alarm\<close>,
  character for character.
\<close>

theorem log_file_writes_header:
  assumes "log_file outfile dir w = Some (Inr p, w')"
  shows "file_records (fs w') p = Some [header_text]"
proof -
  from assms obtain n f fs3
    where u: "unused_name (prepared (fs w) dir) (path_join dir ''log_files'') (fst (splitext outfile)) 1
           (path_join (path_join dir ''log_files'') outfile) = Some (n, p)"
      and o: "open_append (prepared (fs w) dir) p = (Inr f, fs3)"
      and w': "fs w' = write_record fs3 f header_text"
    by (rule log_file_success)
  from new_file_records [OF unused_name_free [OF u] o] w' show ?thesis by simp
qed


theorem log_file_writes_header_witness:
  "new_log_records (log_file ''pzem_logs.csv'' ''./'' example_world) =
     Some [''Time,Voltage in V,Current in A,Power in W,Energy in Wh,High Voltage Alarm,Low Voltage Alarm'']"
proof -
  have "\<exists>w'. log_file ''pzem_logs.csv'' ''./'' example_world = Some (Inr ''./log_files/pzem_logs.csv'', w')"
    by (simp add: eval_defs)
  then obtain w' where h: "log_file ''pzem_logs.csv'' ''./'' example_world = Some (Inr ''./log_files/pzem_logs.csv'', w')"
    by blast
  from log_file_writes_header [OF h] h show ?thesis
    by (simp add: new_log_records_def header_text_def)
qed


text \<open>
  Claim C5, amended. For every \<open>outfile\<close> whose extension, lowered, is not \<open>.csv\<close>,
  and every call in which the \<open>os.makedirs(dir)\<close> that runs before the check succeeds,
  \<open>log_file\<close> raises the ValueError and creates no file (the files of the file
  system are those it had before); it does so for \<open>data.txt\<close> in the default
  directory.
\<close>

theorem log_file_rejects_extension:
  assumes "lower (snd (splitext outfile)) \<noteq> ''.csv''" and "fst (makedirs (fs w) dir) = Inr ()"
  shows "log_file outfile dir w =
           Some (Inl (ValueError (''Outfile must be a .csv file, got '' @ [CHR 0x27] @ outfile @ [CHR 0x27] @ '' instead.'')),
                 w\<lparr>fs := snd (makedirs (fs w) dir)\<rparr>)
       \<and> files (snd (makedirs (fs w) dir)) = files (fs w)"
proof -
  from assms(2) obtain fs1 where m1: "makedirs (fs w) dir = (Inr (), fs1)"
    by (cases "makedirs (fs w) dir") auto
  with makedirs_files [of "fs w" dir] have "files fs1 = files (fs w)" by simp
  with assms(1) m1 show ?thesis
    by (simp add: log_file_def case_prod_beta)
qed


theorem log_file_rejects_extension_witness:
  "lower (snd (splitext ''data.txt'')) \<noteq> ''.csv''
   \<and> fst (makedirs (fs example_world) ''./'') = Inr ()
   \<and> log_outcome (log_file ''data.txt'' ''./'' example_world) =
       Some (Inl (ValueError (''Outfile must be a .csv file, got '' @ [CHR 0x27] @ ''data.txt'' @ [CHR 0x27] @ '' instead.'')),
             [], False)
   \<and> files (fs example_world) = []"
proof -
  have h1: "lower (snd (splitext ''data.txt'')) \<noteq> ''.csv''"
    by (simp add: eval_defs)
  have h2: "fst (makedirs (fs example_world) ''./'') = Inr ()"
    by (simp add: eval_defs)
  have m: "snd (makedirs (fs example_world) ''./'') = example_fs"
    by (simp add: eval_defs)
  have d: "\<not> path_isdir example_fs ''./log_files''" "files (fs example_world) = []" "stdout example_world = []"
    by (simp_all add: eval_defs)
  from log_file_rejects_extension [OF h1 h2] h1 h2 m d show ?thesis
    by (simp add: log_outcome_def)
qed


text \<open>
  Without the proviso the statement fails: where \<open>dir\<close> names a regular file,
  \<open>os.makedirs\<close> raises first, and what leaves \<open>log_file\<close> for \<open>data.txt\<close> is an
  OSError, not the ValueError.
\<close>

theorem directory_error_comes_first:
  "lower (snd (splitext ''data.txt'')) \<noteq> ''.csv''
   \<and> log_outcome (log_file ''data.txt'' ''log_files'' (world_with (\<lambda>k a. Value 0) blocked_fs)) =
       Some (Inl (OSError ''EEXIST''), [], False)"
  by (simp add: eval_defs)

text \<open>
  Claim C9. When \<open>log_file\<close> raises the ValueError of the extension check, the
  directory \<open>dir\<close> exists in the file system the call leaves, also where it did not
  exist before.
\<close>

theorem invalid_extension_leaves_directory:
  assumes "log_file outfile dir w = Some (Inl (ValueError m), w')"
  shows "path_isdir (fs w') dir"
proof -
  obtain r1 fs1 where m1: "makedirs (fs w) dir = (r1, fs1)" by (cases "makedirs (fs w) dir")
  obtain r2 fs2 where m2: "makedirs fs1 (path_join dir ''log_files'') = (r2, fs2)"
    by (cases "makedirs fs1 (path_join dir ''log_files'')")
  show ?thesis
  proof (cases r1)
    case (Inl e)
    with m1 makedirs_error [of "fs w" dir e] assms show ?thesis
      by (auto simp: log_file_def)
  next
    case (Inr u)
    with m1 makedirs_ok [of "fs w" dir u] have d: "path_isdir fs1 dir" by simp
    show ?thesis
    proof (cases "lower (snd (splitext outfile)) = ''.csv''")
      case False
      with m1 Inr assms d show ?thesis
        by (auto simp: log_file_def split: prod.splits)
    next
      case True
      obtain n p where u: "unused_name fs2 (path_join dir ''log_files'') (fst (splitext outfile)) 1
           (path_join (path_join dir ''log_files'') outfile) = Some (n, p)"
        using unused_name_total by blast
      obtain r3 fs3 where o: "open_append fs2 p = (r3, fs3)" by (cases "open_append fs2 p")
      from m1 m2 Inr True u o assms open_append_error [of fs2 p] show ?thesis
        by (cases r2; cases r3) (auto simp: log_file_def Let_def print_def split: prod.splits)
    qed
  qed
qed

theorem invalid_extension_leaves_directory_witness:
  "\<not> path_isdir (fs example_world) ''logs/2024''
   \<and> dir_after (log_file ''data.txt'' ''logs/2024'' example_world) ''logs/2024''"
proof -
  have "\<exists>w'. log_file ''data.txt'' ''logs/2024'' example_world =
      Some (Inl (ValueError (''Outfile must be a .csv file, got '' @ [CHR 0x27] @ ''data.txt'' @ [CHR 0x27] @ '' instead.'')), w')"
    by (simp add: eval_defs)
  then obtain w' where h: "log_file ''data.txt'' ''logs/2024'' example_world =
      Some (Inl (ValueError (''Outfile must be a .csv file, got '' @ [CHR 0x27] @ ''data.txt'' @ [CHR 0x27] @ '' instead.'')), w')"
    by blast
  have n: "\<not> path_isdir (fs example_world) ''logs/2024''"
    by (simp add: eval_defs)
  from invalid_extension_leaves_directory [OF h] h n show ?thesis
    by (simp add: dir_after_def)
qed

text \<open>
  Claim C3, amended. \<open>log_file\<close> always ends, and a path it returns named nothing that
  existed before the call: it is the first of the paths the code tries that does not
  exist once the folders are made, every earlier one existing. The code tries
  \<open>outfile\<close>, then the name without its extension followed by \<open>_1.csv\<close>, \<open>_2.csv\<close>, ...
  with the extension in lower case; these are \<open>base_name\<close> with \<open>_1\<close>, \<open>_2\<close>, ...
  inserted before the extension whenever the extension is written \<open>.csv\<close>. With
  \<open>pzem_logs.csv\<close> present the second call returns \<open>pzem_logs_1.csv\<close> and the third
  \<open>pzem_logs_2.csv\<close>.
\<close>

theorem log_file_picks_unused_name:
  "(\<exists>r. log_file outfile dir w = Some r) \<and>
   (\<forall>p w'. log_file outfile dir w = Some (Inr p, w') \<longrightarrow>
      \<not> path_exists (fs w) p \<and>
      (\<exists>k. p = candidate (path_join dir ''log_files'') outfile k
         \<and> \<not> path_exists (prepared (fs w) dir) p
         \<and> (\<forall>j<k. path_exists (prepared (fs w) dir) (candidate (path_join dir ''log_files'') outfile j)))) \<and>
   (snd (splitext outfile) = ''.csv'' \<longrightarrow>
      (\<forall>k. candidate (path_join dir ''log_files'') outfile k =
           spec_candidate (path_join dir ''log_files'') outfile k))"
proof (intro conjI allI impI)
  show "\<exists>r. log_file outfile dir w = Some r" by (rule log_file_total)
next
  fix p w' assume a: "log_file outfile dir w = Some (Inr p, w')"
  let ?folder = "path_join dir ''log_files''"
  from a obtain n f fs3
    where csv: "lower (snd (splitext outfile)) = ''.csv''"
      and u: "unused_name (prepared (fs w) dir) ?folder (fst (splitext outfile)) 1
               (path_join ?folder outfile) = Some (n, p)"
    by (rule log_file_success)
  from unused_name_candidate [OF csv, of "prepared (fs w) dir" ?folder] u
  have p: "p = candidate ?folder outfile (n - 1)"
    and free: "\<not> path_exists (prepared (fs w) dir) p"
    and taken: "\<forall>j<n - 1. path_exists (prepared (fs w) dir) (candidate ?folder outfile j)"
    by auto
  from free path_exists_grows [OF prepared_grows] show "\<not> path_exists (fs w) p" by blast
  from p free taken
  show "\<exists>k. p = candidate ?folder outfile k \<and> \<not> path_exists (prepared (fs w) dir) p
         \<and> (\<forall>j<k. path_exists (prepared (fs w) dir) (candidate ?folder outfile j))"
    by blast
next
  fix k assume "snd (splitext outfile) = ''.csv''"
  then show "candidate (path_join dir ''log_files'') outfile k =
             spec_candidate (path_join dir ''log_files'') outfile k"
    by (simp add: candidate_def spec_candidate_def numbered_def)
qed

theorem log_file_picks_unused_name_witness:
  "map_option fst (log_file ''pzem_logs.csv'' ''./'' (world_with (\<lambda>k a. Value 0) two_logs_fs)) =
     Some (Inr ''./log_files/pzem_logs_2.csv'')
   \<and> \<not> path_exists two_logs_fs ''./log_files/pzem_logs_2.csv''
   \<and> path_exists two_logs_fs ''./log_files/pzem_logs.csv''
   \<and> path_exists two_logs_fs ''./log_files/pzem_logs_1.csv''
   \<and> map_option fst (log_file ''pzem_logs.csv'' ''./'' example_world) = Some (Inr ''./log_files/pzem_logs.csv'')
   \<and> map_option fst (log_again (log_file ''pzem_logs.csv'' ''./'' example_world)) =
       Some (Inr ''./log_files/pzem_logs_1.csv'')
   \<and> map_option fst (log_again (log_again (log_file ''pzem_logs.csv'' ''./'' example_world))) =
       Some (Inr ''./log_files/pzem_logs_2.csv'')"
proof -
  let ?w = "world_with (\<lambda>k a. Value 0) two_logs_fs"
  have "\<exists>w'. log_file ''pzem_logs.csv'' ''./'' ?w = Some (Inr ''./log_files/pzem_logs_2.csv'', w')"
    by (simp add: eval_defs)
  then obtain w' where h: "log_file ''pzem_logs.csv'' ''./'' ?w = Some (Inr ''./log_files/pzem_logs_2.csv'', w')"
    by blast
  from log_file_picks_unused_name [of "''pzem_logs.csv''" "''./''" ?w] h
  have "\<not> path_exists (fs ?w) ''./log_files/pzem_logs_2.csv''" by blast
  then have 1: "\<not> path_exists two_logs_fs ''./log_files/pzem_logs_2.csv''"
    by (simp add: world_with_def)
  have 2: "path_exists two_logs_fs ''./log_files/pzem_logs.csv''"
    "path_exists two_logs_fs ''./log_files/pzem_logs_1.csv''"
    by (simp_all add: eval_defs)
  have 3: "map_option fst (log_file ''pzem_logs.csv'' ''./'' example_world) = Some (Inr ''./log_files/pzem_logs.csv'')"
    "map_option fst (log_again (log_file ''pzem_logs.csv'' ''./'' example_world)) =
       Some (Inr ''./log_files/pzem_logs_1.csv'')"
    "map_option fst (log_again (log_again (log_file ''pzem_logs.csv'' ''./'' example_world))) =
       Some (Inr ''./log_files/pzem_logs_2.csv'')"
    by (simp_all add: eval_defs)
  from h 1 2 3 show ?thesis by simp
qed


text \<open>
  As the claim is worded, with the number inserted before the extension as it is written,
  it fails: with \<open>LOG.CSV\<close> present the next name in those words is \<open>LOG_1.CSV\<close>, which
  is free, and \<open>log_file\<close> returns \<open>LOG_1.csv\<close>.
\<close>

theorem upper_case_extension_is_lowered:
  "map_option fst (log_file ''LOG.CSV'' ''./'' (world_with (\<lambda>k a. Value 0) upper_fs)) =
     Some (Inr ''./log_files/LOG_1.csv'')
   \<and> path_exists upper_fs (spec_candidate ''./log_files'' ''LOG.CSV'' 0)
   \<and> \<not> path_exists upper_fs (spec_candidate ''./log_files'' ''LOG.CSV'' 1)
   \<and> spec_candidate ''./log_files'' ''LOG.CSV'' 1 = ''./log_files/LOG_1.CSV''"
  by (simp add: eval_defs)

end
